theory Spec2Isabelle
  imports Main
begin

section \<open>Strings and characters\<close>

text \<open>
  A JavaScript string is modelled as a \<^typ>\<open>string\<close>: a list of code units, each below 256
  (the Latin-1 range, which holds every character the regular expressions of \<open>Mongod.js\<close>
  name). \<open>data.toString()\<close> is the identity on such text.
\<close>

abbreviation LF :: char where "LF \<equiv> CHR 0x0A"
abbreviation CR :: char where "CR \<equiv> CHR 0x0D"

definition is_digit :: "char \<Rightarrow> bool" where
  \<comment> \<open>the class \<open>\d\<close>\<close>
  "is_digit c = (48 \<le> (of_char c :: nat) \<and> (of_char c :: nat) \<le> 57)"

definition is_space :: "char \<Rightarrow> bool" where
  \<comment> \<open>the class \<open>\s\<close>, which is also what \<open>trim\<close> strips: tab, line feed, vertical tab,
      form feed, carriage return, space, no-break space\<close>
  "is_space c = ((of_char c :: nat) = 9 \<or> (of_char c :: nat) = 10 \<or> (of_char c :: nat) = 11
     \<or> (of_char c :: nat) = 12 \<or> (of_char c :: nat) = 13 \<or> (of_char c :: nat) = 32
     \<or> (of_char c :: nat) = 160)"

definition toLowerCase_char :: "char \<Rightarrow> char" where
  \<comment> \<open>\<open>toLowerCase\<close> on one code unit: A-Z and the Latin-1 capitals move up by 32\<close>
  "toLowerCase_char c =
     (let n = (of_char c :: nat)
      in if (65 \<le> n \<and> n \<le> 90) \<or> (192 \<le> n \<and> n \<le> 222 \<and> n \<noteq> 215)
         then char_of (n + 32) else c)"

definition toLowerCase :: "string \<Rightarrow> string" where
  "toLowerCase s = map toLowerCase_char s"

definition trim :: "string \<Rightarrow> string" where
  "trim s = rev (dropWhile is_space (rev (dropWhile is_space s)))"


section \<open>getTextLineAggregator\<close>

text \<open>
  \<open>data.toString().split(newlineRE)\<close> with \<open>newlineRE = /\r?\n/\<close>: the text is cut at every
  line feed, and a carriage return directly before the line feed belongs to the separator.
  The result always has at least one fragment (the empty text gives one empty fragment).
\<close>

fun split_newlineRE :: "string \<Rightarrow> string list" where
  "split_newlineRE [] = [[]]"
| "split_newlineRE [c] = (if c = LF then [[], []] else [[c]])"
| "split_newlineRE (c # d # ds) =
     (if c = LF then [] # split_newlineRE (d # ds)
      else if c = CR \<and> d = LF then [] # split_newlineRE ds
      else (case split_newlineRE (d # ds) of
              f # fs \<Rightarrow> (c # f) # fs
            | [] \<Rightarrow> [[c]]))"

text \<open>
  One call of the function returned by \<open>getTextLineAggregator(callback)\<close>. The closure's
  variable \<open>buffer\<close> is passed in and returned; the first component lists the arguments of
  the calls of \<open>callback\<close>, in order.

  \<open>lines = fragments.slice(0, fragments.length - 1)\<close> is empty when the chunk holds no line
  feed. Then \<open>lines[0]\<close> reads \<open>undefined\<close>, \<open>buffer + undefined\<close> is the buffer followed by
  the text \<open>undefined\<close>, and the assignment \<open>lines[0] = ...\<close> makes \<open>lines\<close> one element long.
\<close>

definition aggregator :: "string \<Rightarrow> string \<Rightarrow> string list \<times> string" where
  "aggregator buffer data =
     (let fragments = split_newlineRE data;
          lines = butlast fragments;
          lines = (case lines of
                     [] \<Rightarrow> [buffer @ ''undefined'']
                   | l # ls \<Rightarrow> (buffer @ l) # ls);
          buffer = last fragments
      in (lines, buffer))"

text \<open>A sequence of chunks fed to one aggregator: all callback arguments, in order.\<close>

fun aggregator_run :: "string \<Rightarrow> string list \<Rightarrow> string list" where
  "aggregator_run buffer [] = []"
| "aggregator_run buffer (data # chunks) =
     (case aggregator buffer data of
        (lines, buffer') \<Rightarrow> lines @ aggregator_run buffer' chunks)"

definition getTextLineAggregator :: "string list \<Rightarrow> string list" where
  \<comment> \<open>a fresh aggregator starts with \<open>buffer = ''\<close>\<close>
  "getTextLineAggregator chunks = aggregator_run [] chunks"

text \<open>
  What the specification asks for, following its words: the newline-terminated lines of
  the concatenated input, that is every fragment of the whole text but the unterminated
  last one.
\<close>

definition terminated_lines :: "string list \<Rightarrow> string list" where
  "terminated_lines chunks = butlast (split_newlineRE (concat chunks))"


section \<open>Configuration\<close>

text \<open>
  JavaScript values as far as the configuration code tells them apart. An object is a
  finite map from property names to values; reading a missing property gives
  \<open>undefined\<close>. Numbers are only copied, never computed with.
\<close>

datatype jsval = JUndefined | JNull | JBool bool | JNum int | JStr string

type_synonym jsobj = "string \<rightharpoonup> jsval"

datatype jsarg = Prim jsval | Obj jsobj | Func

datatype jstype = T_undefined | T_object | T_boolean | T_number | T_string | T_function

fun typeof :: "jsarg \<Rightarrow> jstype" where
  "typeof (Prim JUndefined) = T_undefined"
| "typeof (Prim JNull) = T_object"
| "typeof (Prim (JBool b)) = T_boolean"
| "typeof (Prim (JNum n)) = T_number"
| "typeof (Prim (JStr s)) = T_string"
| "typeof (Obj obj) = T_object"
| "typeof Func = T_function"

definition is_null :: "jsval \<Rightarrow> bool" where
  \<comment> \<open>\<open>v == null\<close>: true of \<open>null\<close> and of \<open>undefined\<close>\<close>
  "is_null v = (v = JNull \<or> v = JUndefined)"

definition get :: "jsobj \<Rightarrow> string \<Rightarrow> jsval" where
  "get obj k = (case obj k of None \<Rightarrow> JUndefined | Some v \<Rightarrow> v)"

fun read_prop :: "jsarg \<Rightarrow> string \<Rightarrow> jsval" where
  \<comment> \<open>\<open>source.k\<close> for a source that is not \<open>null\<close> or \<open>undefined\<close>; a primitive or a function
      has none of the properties read here\<close>
  "read_prop (Obj obj) k = get obj k"
| "read_prop (Prim v) k = JUndefined"
| "read_prop Func k = JUndefined"

fun arg_is_null :: "jsarg \<Rightarrow> bool" where
  "arg_is_null (Prim v) = is_null v"
| "arg_is_null (Obj obj) = False"
| "arg_is_null Func = False"

definition copy_field :: "jsarg \<Rightarrow> string \<Rightarrow> jsobj \<Rightarrow> jsobj" where
  \<comment> \<open>\<open>if (source.k != null) { target.k = source.k; }\<close>\<close>
  "copy_field source k target =
     (if is_null (read_prop source k) then target else target(k \<mapsto> read_prop source k))"

definition parseConfig :: "jsarg \<Rightarrow> jsobj option \<Rightarrow> jsobj" where
  "parseConfig source target =
     (let target = (case target of None \<Rightarrow> Map.empty | Some t \<Rightarrow> t)
      in if arg_is_null source then target
         else let target = copy_field source ''bin'' target
              in if is_null (read_prop source ''conf'')
                 then copy_field source ''port'' (copy_field source ''dbpath'' target)
                 else target(''conf'' \<mapsto> read_prop source ''conf''))"

definition parseFlags :: "jsobj \<Rightarrow> jsval list" where
  "parseFlags config =
     (if is_null (get config ''conf'')
      then (if is_null (get config ''dbpath'') then []
            else [JStr ''--dbpath'', get config ''dbpath''])
         @ (if is_null (get config ''port'') then []
            else [JStr ''--port'', get config ''port''])
      else [JStr ''--config'', get config ''conf''])"

definition default_config :: jsobj where
  \<comment> \<open>\<open>{ bin: 'mongod', conf: null, port: 27017, dbpath: null }\<close>\<close>
  "default_config =
     [''bin'' \<mapsto> JStr ''mongod'', ''conf'' \<mapsto> JNull, ''port'' \<mapsto> JNum 27017,
      ''dbpath'' \<mapsto> JNull]"

definition constructor_config :: "jsarg \<Rightarrow> jsobj" where
  \<comment> \<open>the value of \<open>this.config\<close> when \<open>new Mongod(configOrPort)\<close> returns\<close>
  "constructor_config configOrPort =
     (if typeof configOrPort = T_number \<or> typeof configOrPort = T_string
      then (case configOrPort of
              Prim v \<Rightarrow> default_config(''port'' \<mapsto> v)
            | _ \<Rightarrow> default_config)
      else if typeof configOrPort = T_object
      then parseConfig configOrPort (Some default_config)
      else default_config)"


section \<open>The regular expressions\<close>

text \<open>
  A matcher tries to match at the start of a text and returns what is left after the
  match. All expressions carry the flag \<open>i\<close>: a code unit matches an ASCII letter of the
  pattern when it is that letter in either case, so pattern texts are written in lower
  case and compared with the lower-cased code unit.
\<close>

type_synonym matcher = "string \<Rightarrow> string option"

fun literal_ci :: "string \<Rightarrow> matcher" where
  "literal_ci [] s = Some s"
| "literal_ci (p # ps) [] = None"
| "literal_ci (p # ps) (c # cs) =
     (if toLowerCase_char c = p then literal_ci ps cs else None)"

definition some_spaces :: matcher where
  \<comment> \<open>\<open>\s+\<close>; what follows it in \<open>keyRE\<close> is a letter, so the longest run is the match\<close>
  "some_spaces s =
     (case s of [] \<Rightarrow> None
      | c # cs \<Rightarrow> if is_space c then Some (dropWhile is_space cs) else None)"

definition some_digits :: matcher where
  \<comment> \<open>\<open>\d+\<close>\<close>
  "some_digits s =
     (case s of [] \<Rightarrow> None
      | c # cs \<Rightarrow> if is_digit c then Some (dropWhile is_digit cs) else None)"

fun sequence :: "matcher list \<Rightarrow> matcher" where
  "sequence [] s = Some s"
| "sequence (m # ms) s = (case m s of None \<Rightarrow> None | Some r \<Rightarrow> sequence ms r)"

fun first_of :: "matcher list \<Rightarrow> matcher" where
  \<comment> \<open>\<open>a|b|...\<close>: the first alternative that matches\<close>
  "first_of [] s = None"
| "first_of (m # ms) s = (case m s of None \<Rightarrow> first_of ms s | Some r \<Rightarrow> Some r)"

definition pid_RE :: matcher where
  "pid_RE = sequence [literal_ci ''pid='', some_digits]"

definition port_RE :: matcher where
  "port_RE = sequence [literal_ci ''port='', some_digits]"

definition waiting_RE :: matcher where
  "waiting_RE = sequence [literal_ci ''waiting'', some_spaces, literal_ci ''for'',
     some_spaces, literal_ci ''connections'']"

definition already_RE :: matcher where
  "already_RE = sequence [literal_ci ''already'', some_spaces, literal_ci ''in'',
     some_spaces, literal_ci ''use'']"

definition denied_RE :: matcher where
  "denied_RE = sequence [literal_ci ''denied'', some_spaces, literal_ci ''for'',
     some_spaces, literal_ci ''socket'']"

definition rest_RE :: matcher where
  \<comment> \<open>\<open>(.|\n)*\<close>: the dot stops at a line feed or a carriage return, \<open>\n\<close> adds the line
      feed back, so the run ends at the first carriage return\<close>
  "rest_RE s = Some (dropWhile (\<lambda>c. c \<noteq> CR) s)"

definition error_RE :: matcher where
  "error_RE = sequence
     [first_of [literal_ci ''error'', literal_ci ''exception'', literal_ci ''badvalue''],
      rest_RE]"

definition keyRE :: matcher where
  \<comment> \<open>one attempt of \<open>keyRE\<close> at the start of the text\<close>
  "keyRE = first_of [pid_RE, port_RE, waiting_RE, already_RE, denied_RE, error_RE]"

text \<open>
  \<open>value.match(keyRE)\<close> with the flag \<open>g\<close>: all matches from left to right, each search
  resuming where the last match ended. \<open>match\<close> returns \<open>null\<close> when there is none; the
  caller only tests for \<open>null\<close> and then loops over the matches, so \<open>null\<close> is the empty
  list here. The counter is the number of code units still covered by the last match.
\<close>

fun match_from :: "nat \<Rightarrow> string \<Rightarrow> string list" where
  "match_from covered [] = []"
| "match_from (Suc covered) (c # cs) = match_from covered cs"
| "match_from 0 (c # cs) =
     (case keyRE (c # cs) of
        None \<Rightarrow> match_from 0 cs
      | Some r \<Rightarrow>
          (let n = length (c # cs) - length r
           in take n (c # cs) # match_from (n - 1) cs))"

definition match_keyRE :: "string \<Rightarrow> string list" where
  "match_keyRE s = match_from 0 s"

fun contains_ci :: "string \<Rightarrow> string \<Rightarrow> bool" where
  "contains_ci p [] = (literal_ci p [] \<noteq> None)"
| "contains_ci p (c # cs) = (literal_ci p (c # cs) \<noteq> None \<or> contains_ci p cs)"

definition errorRE_test :: "string \<Rightarrow> bool" where
  \<comment> \<open>\<open>/^error|exception|badvalue/i\<close>: the anchor belongs to the first alternative only\<close>
  "errorRE_test s =
     (literal_ci ''error'' s \<noteq> None \<or> contains_ci ''exception'' s \<or> contains_ci ''badvalue'' s)"

definition split_eq :: "string \<Rightarrow> string \<times> string option" where
  \<comment> \<open>\<open>t = match.split('=')\<close>: the pair \<open>(t[0], t[1])\<close>, \<open>t[1]\<close> being \<open>undefined\<close> when the
      text has no equals sign\<close>
  "split_eq s =
     (takeWhile (\<lambda>c. c \<noteq> CHR ''='') s,
      case dropWhile (\<lambda>c. c \<noteq> CHR ''='') s of
        [] \<Rightarrow> None
      | e # r \<Rightarrow> Some (takeWhile (\<lambda>c. c \<noteq> CHR ''='') r))"

definition key_value :: "string \<Rightarrow> string \<times> string option" where
  \<comment> \<open>the variables \<open>k\<close> and \<open>v\<close> of \<open>matchHandler\<close> before its \<open>switch\<close>;
      \<open>whiteSpaceRE\<close> deletes space characters only\<close>
  "key_value match =
     (if errorRE_test match then (''error'', Some (trim match))
      else case split_eq match of
             (t0, t1) \<Rightarrow> (toLowerCase (filter (\<lambda>c. c \<noteq> CHR '' '') t0), t1))"


section \<open>The server and its surroundings\<close>

datatype js_error =
    Error string int    \<comment> \<open>\<open>new Error(message)\<close> with its \<open>code\<close> set afterwards\<close>
  | TypeError           \<comment> \<open>what reading a property of \<open>null\<close> throws\<close>

datatype settlement = Pending | Resolved | Rejected js_error
  \<comment> \<open>the state of a promise; every promise here resolves with \<open>null\<close>\<close>

datatype number = Number string
  \<comment> \<open>the JavaScript number \<open>Number(v)\<close>, named by the text \<open>v\<close> it is converted from\<close>

datatype notification = Opening | Open | Closing | Close | Stdout string | Stderr string
  \<comment> \<open>the calls of \<open>server.emit\<close>\<close>

datatype stream = StdoutStream | StderrStream

datatype job = OpenJob nat | CloseJob nat
  \<comment> \<open>a function given to \<open>promiseQueue.add\<close>, with the promise that \<open>add\<close> returned\<close>

text \<open>
  A child process as \<open>Mongod.open\<close> leaves it: spawned, with \<open>dataHandler\<close> and the two
  propagators listening on its output (each with the buffer of its own line aggregator)
  and a listener for \<open>close\<close>. \<open>attempt\<close> is the promise that the \<open>resolve\<close> and \<open>reject\<close> of
  this process's \<open>matchHandler\<close> settle; \<open>close_once\<close> holds the promises of the listeners
  that \<open>Mongod.close\<close> adds with \<open>once('close', ...)\<close>.
\<close>

record child =
  attempt :: nat
  dataHandler_on :: bool
  dataHandler_buffer :: string
  stdout_buffer :: string
  stderr_buffer :: string
  close_once :: "nat list"
  killed :: bool
  closed :: bool

text \<open>
  The fields of a \<open>Mongod\<close> instance, its \<open>promiseQueue\<close>, and what the instance reaches
  outside itself: the promises it made (a promise is its index in \<open>promises\<close>), the child
  processes it spawned (\<open>server.process\<close> is an index in \<open>children\<close>), the \<open>exit\<close> listeners
  it holds on the controlling program, and the record of what it emitted and spawned.

  Modelled from the spec: the single-slot serialization queue (\<open>new PromiseQueue(1)\<close>, the
  dependency \<open>promise-queue\<close>, not under src/). \<open>queue\<close> holds the jobs not yet started,
  \<open>pending\<close> the one job that was started and whose completion the queue has not yet
  taken note of; a job never starts while another one is pending. \<open>started\<close> records the
  jobs in the order in which the queue called their functions. The promise that \<open>add\<close>
  returns takes the state of the promise that the job's function returns; the model has
  one promise for both.
\<close>

record server =
  config :: jsobj
  pid :: "number option"
  port :: "number option"
  process :: "nat option"
  openPromise :: nat
  closePromise :: nat
  isClosing :: bool
  isRunning :: bool
  isOpening :: bool
  queue :: "job list"
  pending :: "job option"
  started :: "job list"
  promises :: "settlement list"
  children :: "child list"
  exitHandlers :: nat
  emitted :: "notification list"
  spawned :: "(jsval \<times> jsval list) list"

definition new_promise :: "settlement \<Rightarrow> server \<Rightarrow> nat \<times> server" where
  "new_promise st s = (length (promises s), s\<lparr>promises := promises s @ [st]\<rparr>)"

definition settle :: "nat \<Rightarrow> settlement \<Rightarrow> server \<Rightarrow> server" where
  \<comment> \<open>\<open>resolve\<close> or \<open>reject\<close>: only the first call on a promise has an effect\<close>
  "settle p st s =
     (if p < length (promises s) \<and> promises s ! p = Pending
      then s\<lparr>promises := (promises s)[p := st]\<rparr> else s)"

definition state_of :: "server \<Rightarrow> nat \<Rightarrow> settlement" where
  "state_of s p = (if p < length (promises s) then promises s ! p else Pending)"

definition emit :: "notification \<Rightarrow> server \<Rightarrow> server" where
  "emit n s = s\<lparr>emitted := emitted s @ [n]\<rparr>"

definition update_child :: "nat \<Rightarrow> (child \<Rightarrow> child) \<Rightarrow> server \<Rightarrow> server" where
  "update_child i f s =
     (if i < length (children s) then s\<lparr>children := (children s)[i := f (children s ! i)]\<rparr>
      else s)"


subsection \<open>The constructor\<close>

definition Mongod :: "jsarg \<Rightarrow> server" where
  "Mongod configOrPort =
     \<lparr>config = constructor_config configOrPort, pid = None, port = None, process = None,
      openPromise = 0, closePromise = 1,
      isClosing = False, isRunning = False, isOpening = False,
      queue = [], pending = None, started = [], promises = [Resolved, Resolved],
      children = [], exitHandlers = 0, emitted = [], spawned = []\<rparr>"


subsection \<open>matchHandler and dataHandler\<close>

definition error_message :: "string option \<Rightarrow> string" where
  \<comment> \<open>the message of \<open>new Error(v)\<close>: empty when \<open>v\<close> is \<open>undefined\<close>\<close>
  "error_message v = (case v of None \<Rightarrow> [] | Some m \<Rightarrow> m)"

definition number_of :: "string option \<Rightarrow> number" where
  \<comment> \<open>\<open>Number(v)\<close>; \<open>Number(undefined)\<close> is the same number as \<open>Number('undefined')\<close>\<close>
  "number_of v = (case v of None \<Rightarrow> Number ''undefined'' | Some d \<Rightarrow> Number d)"

definition finish :: "nat \<Rightarrow> js_error option \<Rightarrow> server \<Rightarrow> bool \<times> server" where
  \<comment> \<open>the end of \<open>matchHandler\<close>, after the \<open>switch\<close>\<close>
  "finish p err s =
     (let s = s\<lparr>isOpening := False\<rparr>
      in (True, case err of None \<Rightarrow> settle p Resolved s | Some e \<Rightarrow> settle p (Rejected e) s))"

definition matchHandler :: "nat \<Rightarrow> string \<Rightarrow> server \<Rightarrow> bool \<times> server" where
  \<comment> \<open>\<open>p\<close> is the promise of the open attempt whose \<open>resolve\<close> and \<open>reject\<close> the closure holds\<close>
  "matchHandler p match s =
     (case key_value match of
        (k, v) \<Rightarrow>
          if k = ''error'' then finish p (Some (Error (error_message v) (- 1))) s
          else if k = ''alreadyinuse'' then finish p (Some (Error ''Address already in use'' (- 2))) s
          else if k = ''deniedforsocket'' then finish p (Some (Error ''Permission denied'' (- 3))) s
          else if k = ''pid'' then (False, s\<lparr>pid := Some (number_of v)\<rparr>)
          else if k = ''port'' then (False, s\<lparr>port := Some (number_of v)\<rparr>)
          else if k = ''waitingforconnections''
            then finish p None (emit Open (s\<lparr>isRunning := True\<rparr>))
          else (False, s))"

definition remove_dataHandler :: "nat \<Rightarrow> server \<Rightarrow> js_error + server" where
  \<comment> \<open>\<open>server.process.stdout.removeListener('data', dataHandler)\<close> and the same for stderr,
      for the \<open>dataHandler\<close> of child \<open>i\<close>: it throws when \<open>server.process\<close> is \<open>null\<close>, and
      removes nothing when \<open>server.process\<close> is another child\<close>
  "remove_dataHandler i s =
     (case process s of
        None \<Rightarrow> Inl TypeError
      | Some j \<Rightarrow>
          Inr (if j = i then update_child i (\<lambda>c. c\<lparr>dataHandler_on := False\<rparr>) s else s))"

fun for_matches :: "nat \<Rightarrow> string list \<Rightarrow> server \<Rightarrow> js_error + server" where
  \<comment> \<open>the loop over \<open>matches\<close> in the callback of \<open>dataHandler\<close>, for child \<open>i\<close>\<close>
  "for_matches i [] s = Inr s"
| "for_matches i (match # matches) s =
     (case matchHandler (if i < length (children s) then attempt (children s ! i) else 0) match s of
        (True, s') \<Rightarrow> remove_dataHandler i s'
      | (False, s') \<Rightarrow> for_matches i matches s')"

definition line_callback :: "nat \<Rightarrow> string \<Rightarrow> server \<Rightarrow> js_error + server" where
  "line_callback i value s = for_matches i (match_keyRE value) s"

fun for_lines :: "(string \<Rightarrow> server \<Rightarrow> js_error + server) \<Rightarrow> string list \<Rightarrow> server
    \<Rightarrow> js_error + server" where
  \<comment> \<open>\<open>for (let line of lines) { callback(line); }\<close>; an exception ends the loop\<close>
  "for_lines callback [] s = Inr s"
| "for_lines callback (line # lines) s =
     (case callback line s of Inl e \<Rightarrow> Inl e | Inr s' \<Rightarrow> for_lines callback lines s')"

definition dataHandler :: "nat \<Rightarrow> string \<Rightarrow> server \<Rightarrow> js_error + server" where
  "dataHandler i data s =
     (if i < length (children s)
      then (case aggregator (dataHandler_buffer (children s ! i)) data of
              (lines, buffer) \<Rightarrow>
                for_lines (line_callback i) lines
                  (update_child i (\<lambda>c. c\<lparr>dataHandler_buffer := buffer\<rparr>) s))
      else Inr s)"

definition propagator :: "nat \<Rightarrow> stream \<Rightarrow> string \<Rightarrow> server \<Rightarrow> server" where
  \<comment> \<open>\<open>getDataPropagator(event)\<close> on the stream of the same name of child \<open>i\<close>\<close>
  "propagator i st data s =
     (if i < length (children s)
      then (case st of
              StdoutStream \<Rightarrow>
                (case aggregator (stdout_buffer (children s ! i)) data of
                   (lines, buffer) \<Rightarrow>
                     fold (\<lambda>line. emit (Stdout line)) lines
                       (update_child i (\<lambda>c. c\<lparr>stdout_buffer := buffer\<rparr>) s))
            | StderrStream \<Rightarrow>
                (case aggregator (stderr_buffer (children s ! i)) data of
                   (lines, buffer) \<Rightarrow>
                     fold (\<lambda>line. emit (Stderr line)) lines
                       (update_child i (\<lambda>c. c\<lparr>stderr_buffer := buffer\<rparr>) s)))
      else s)"

definition on_data :: "nat \<Rightarrow> stream \<Rightarrow> string \<Rightarrow> server \<Rightarrow> js_error + server" where
  \<comment> \<open>a \<open>data\<close> event of child \<open>i\<close>: \<open>dataHandler\<close> if it is still listening, then the
      propagator; a child that has closed sends nothing\<close>
  "on_data i st data s =
     (if i < length (children s) \<and> \<not> closed (children s ! i)
      then (case (if dataHandler_on (children s ! i) then dataHandler i data s else Inr s) of
              Inl e \<Rightarrow> Inl e
            | Inr s' \<Rightarrow> Inr (propagator i st data s'))
      else Inr s)"

definition on_close :: "nat \<Rightarrow> server \<Rightarrow> server" where
  \<comment> \<open>the \<open>close\<close> event of child \<open>i\<close>: the listener that \<open>Mongod.open\<close> added, then the
      listeners that \<open>Mongod.close\<close> added\<close>
  "on_close i s =
     (if i < length (children s) \<and> \<not> closed (children s ! i)
      then (let s = s\<lparr>process := None, port := None, pid := None,
                      isRunning := False, isClosing := False,
                      exitHandlers := exitHandlers s - 1\<rparr>;
                s = emit Close s;
                s = fold (\<lambda>p. settle p Resolved) (close_once (children s ! i)) s
            in update_child i (\<lambda>c. c\<lparr>close_once := [], closed := True\<rparr>) s)
      else s)"


subsection \<open>The queue, open and close\<close>

definition open_job :: "nat \<Rightarrow> server \<Rightarrow> server" where
  \<comment> \<open>the function that \<open>Mongod.open\<close> gives to the queue; \<open>p\<close> is its promise\<close>
  "open_job p s =
     (if isClosing s \<or> isRunning s
      then settle p Resolved (s\<lparr>isOpening := False\<rparr>)
      else (let s = emit Opening s;
                i = length (children s)
            in s\<lparr>process := Some i,
                 spawned := spawned s @ [(get (config s) ''bin'', parseFlags (config s))],
                 children := children s @
                   [\<lparr>attempt = p, dataHandler_on = True, dataHandler_buffer = [],
                     stdout_buffer = [], stderr_buffer = [], close_once = [],
                     killed = False, closed = False\<rparr>],
                 exitHandlers := exitHandlers s + 1\<rparr>))"

definition close_job :: "nat \<Rightarrow> server \<Rightarrow> server" where
  \<comment> \<open>the function that \<open>Mongod.close\<close> gives to the queue; an exception in the
      promise's executor rejects the promise\<close>
  "close_job p s =
     (if isOpening s \<or> \<not> isRunning s
      then settle p Resolved (s\<lparr>isClosing := False\<rparr>)
      else (let s = emit Closing s
            in case process s of
                 None \<Rightarrow> settle p (Rejected TypeError) s
               | Some i \<Rightarrow>
                   update_child i (\<lambda>c. c\<lparr>close_once := close_once c @ [p], killed := True\<rparr>) s))"

fun run_job :: "job \<Rightarrow> server \<Rightarrow> server" where
  "run_job (OpenJob p) s = open_job p s"
| "run_job (CloseJob p) s = close_job p s"

fun promise_of :: "job \<Rightarrow> nat" where
  "promise_of (OpenJob p) = p"
| "promise_of (CloseJob p) = p"

definition dequeue :: "server \<Rightarrow> server" where
  \<comment> \<open>Modelled from the spec: the queue starts the oldest waiting job, unless one is
      pending\<close>
  "dequeue s =
     (case pending s of
        Some j \<Rightarrow> s
      | None \<Rightarrow>
          (case queue s of
             [] \<Rightarrow> s
           | j # js \<Rightarrow>
               run_job j (s\<lparr>queue := js, pending := Some j, started := started s @ [j]\<rparr>)))"

definition add :: "(nat \<Rightarrow> job) \<Rightarrow> server \<Rightarrow> nat \<times> server" where
  \<comment> \<open>Modelled from the spec: \<open>promiseQueue.add(f)\<close> makes a new promise, puts the job at
      the end of the queue, and starts it at once when nothing is pending\<close>
  "add f s =
     (case new_promise Pending s of
        (p, s) \<Rightarrow> (p, dequeue (s\<lparr>queue := queue s @ [f p]\<rparr>)))"

definition tick :: "server \<Rightarrow> server" where
  \<comment> \<open>Modelled from the spec: the queue takes note that the pending job's promise has
      settled, and starts the next one\<close>
  "tick s =
     (case pending s of
        None \<Rightarrow> s
      | Some j \<Rightarrow>
          if state_of s (promise_of j) = Pending then s
          else dequeue (s\<lparr>pending := None\<rparr>))"

definition Mongod_open :: "server \<Rightarrow> nat \<times> server" where
  \<comment> \<open>the static \<open>Mongod.open(server)\<close>: the promise returned, and the server afterwards\<close>
  "Mongod_open s =
     (if isOpening s then (openPromise s, s)
      else (case add OpenJob (s\<lparr>isOpening := True, isClosing := False\<rparr>) of
              (p, s) \<Rightarrow> (p, s\<lparr>openPromise := p\<rparr>)))"

definition Mongod_close :: "server \<Rightarrow> nat \<times> server" where
  \<comment> \<open>the static \<open>Mongod.close(server)\<close>\<close>
  "Mongod_close s =
     (if isClosing s then (closePromise s, s)
      else (case add CloseJob (s\<lparr>isClosing := True, isOpening := False\<rparr>) of
              (p, s) \<Rightarrow> (p, s\<lparr>closePromise := p\<rparr>)))"


subsection \<open>The methods open and close with their callback\<close>

text \<open>
  \<open>promise.then(callback).catch(callback)\<close>: the calls of \<open>callback\<close> once \<open>promise\<close> has the
  given state, each call as the list of its arguments. A callback is given by what it
  throws, if anything, for each argument; a value it is called with is \<open>null\<close> or an error.
\<close>

datatype cb_value = CNull | CError js_error

definition then_catch :: "(cb_value \<Rightarrow> js_error option) \<Rightarrow> settlement \<Rightarrow> cb_value list list" where
  "then_catch callback st =
     (case st of
        Pending \<Rightarrow> []
      | Resolved \<Rightarrow>
          (case callback CNull of
             None \<Rightarrow> [[CNull]]
           | Some e \<Rightarrow> [[CNull], [CError e]])
      | Rejected e \<Rightarrow> [[CError e]])"


subsection \<open>What happens to a server\<close>

datatype input =
    CallOpen                   \<comment> \<open>\<open>server.open()\<close>\<close>
  | CallClose                  \<comment> \<open>\<open>server.close()\<close>\<close>
  | Data nat stream string     \<comment> \<open>a chunk of output of a child\<close>
  | Closed nat                 \<comment> \<open>a child has exited and its streams have ended\<close>
  | Tick                       \<comment> \<open>the queue's reaction to a settled job\<close>
  | Exit                       \<comment> \<open>the controlling program exits\<close>

fun step :: "input \<Rightarrow> server \<Rightarrow> js_error + server" where
  "step CallOpen s = Inr (snd (Mongod_open s))"
| "step CallClose s = Inr (snd (Mongod_close s))"
| "step (Data i st data) s = on_data i st data s"
| "step (Closed i) s = Inr (on_close i s)"
| "step Tick s = Inr (tick s)"
| "step Exit s = Inr (((\<lambda>s. snd (Mongod_close s)) ^^ exitHandlers s) s)"

fun run :: "input list \<Rightarrow> server \<Rightarrow> js_error + server" where
  \<comment> \<open>an uncaught exception ends the program\<close>
  "run [] s = Inr s"
| "run (x # xs) s = (case step x s of Inl e \<Rightarrow> Inl e | Inr s' \<Rightarrow> run xs s')"


subsection \<open>An invariant of the open attempt\<close>





subsection \<open>An invariant of the queue\<close>

text \<open>
  The relation between a state and a later one in which the queue is as it was and no
  settled promise has become pending again; and what holds of the queue in every state:
  the jobs started and the jobs waiting are, in this order, the promises made by \<open>add\<close>
  in the order of the calls, every started job but the last has settled, and the last
  one is the pending one.
\<close>

definition settles :: "server \<Rightarrow> server \<Rightarrow> bool" where
  "settles s s' =
     (queue s' = queue s \<and> started s' = started s \<and> pending s' = pending s
      \<and> length (promises s') = length (promises s)
      \<and> (\<forall>q. state_of s q \<noteq> Pending \<longrightarrow> state_of s' q \<noteq> Pending))"

definition queue_inv :: "server \<Rightarrow> bool" where
  "queue_inv s =
     (2 \<le> length (promises s)
      \<and> map promise_of (started s @ queue s) = [2..<length (promises s)]
      \<and> (\<forall>j\<in>set (butlast (started s)). state_of s (promise_of j) \<noteq> Pending)
      \<and> (case pending s of
            Some j \<Rightarrow> started s \<noteq> [] \<and> last (started s) = j
          | None \<Rightarrow> (\<forall>j\<in>set (started s). state_of s (promise_of j) \<noteq> Pending)))"

subsection \<open>An invariant of the output handlers\<close>



section \<open>Properties\<close>

lemma split_newlineRE_not_Nil: "split_newlineRE s \<noteq> []"
  by (induction s rule: split_newlineRE.induct) (auto split: list.splits)

text \<open>
  C1 (does not hold of the code). The aggregator is to call back once per
  newline-terminated line of the concatenated input. A single chunk \<open>abc\<close> without a line
  feed holds no terminated line, yet the callback is called once, with the text
  \<open>undefined\<close>; the same happens for an empty chunk; and when a chunk boundary falls
  between a carriage return and its line feed, the carriage return stays in the line
  (after a first bogus call).
\<close>

theorem aggregator_calls_back_without_newline:
  "getTextLineAggregator [''abc''] = [''undefined'']
   \<and> terminated_lines [''abc''] = []
   \<and> getTextLineAggregator [''''] = [''undefined'']
   \<and> terminated_lines [''''] = []
   \<and> getTextLineAggregator [[CHR ''a'', CR], [LF, CHR ''b'', LF]]
       = [''undefined'', [CHR ''a'', CR], ''b'']
   \<and> terminated_lines [[CHR ''a'', CR], [LF, CHR ''b'', LF]] = [''a'', ''b'']"
  by (simp add: getTextLineAggregator_def terminated_lines_def aggregator_def)


subsection \<open>Evaluation of the model\<close>

lemmas server_defs =
  Mongod_def Mongod_open_def Mongod_close_def add_def new_promise_def dequeue_def
  open_job_def close_job_def emit_def settle_def state_of_def tick_def on_data_def
  on_close_def dataHandler_def propagator_def line_callback_def matchHandler_def
  finish_def remove_dataHandler_def update_child_def error_message_def number_of_def
  aggregator_def



lemma match_waiting:
  "match_keyRE ''waiting for connections'' = [''waiting for connections'']"
  by code_simp

lemma key_value_waiting_plain:
  "key_value ''waiting for connections'' = (''waitingforconnections'', None)"
  by code_simp


subsection \<open>Configuration and flags\<close>

text \<open>
  C7 (does not hold of the code). \<open>parseFlags\<close> is to put \<open>--nojournal\<close> and
  \<open>--storageEngine\<close> with its value before \<open>--dbpath\<close> and \<open>--port\<close>. The code reads only
  \<open>conf\<close>, \<open>dbpath\<close> and \<open>port\<close>: for the configuration of the repository's own test, with
  \<open>storageEngine\<close> and \<open>nojournal\<close> set, it returns the flags for \<open>dbpath\<close> and \<open>port\<close> alone.
\<close>

theorem parseFlags_drops_storageEngine_nojournal:
  "parseFlags [''bin'' \<mapsto> JStr ''mongod'', ''port'' \<mapsto> JNum 27017,
               ''dbpath'' \<mapsto> JStr ''data/db'', ''storageEngine'' \<mapsto> JStr ''inMemory'',
               ''nojournal'' \<mapsto> JBool True]
   = [JStr ''--dbpath'', JStr ''data/db'', JStr ''--port'', JNum 27017]"
  by (simp add: parseFlags_def get_def is_null_def)

text \<open>
  C10. \<open>new Mongod(x)\<close> with a number or a string \<open>x\<close> has the default configuration with
  \<open>port\<close> replaced by \<open>x\<close>; with an object it has what \<open>parseConfig\<close> makes of the object and
  the defaults, which is spelled out field by field (a \<open>conf\<close> in the object stops the
  merge before \<open>dbpath\<close> and \<open>port\<close>, and no other field of the object is taken over); with
  no argument, \<open>null\<close>, a boolean or a function it has the defaults unchanged.
\<close>

theorem constructor_config_by_argument:
  "constructor_config (Prim (JNum n))
     = [''bin'' \<mapsto> JStr ''mongod'', ''conf'' \<mapsto> JNull, ''port'' \<mapsto> JNum n, ''dbpath'' \<mapsto> JNull]
   \<and> constructor_config (Prim (JStr t))
     = [''bin'' \<mapsto> JStr ''mongod'', ''conf'' \<mapsto> JNull, ''port'' \<mapsto> JStr t, ''dbpath'' \<mapsto> JNull]
   \<and> constructor_config (Obj obj) = parseConfig (Obj obj) (Some default_config)
   \<and> get (constructor_config (Obj obj)) ''bin''
     = (if is_null (get obj ''bin'') then JStr ''mongod'' else get obj ''bin'')
   \<and> get (constructor_config (Obj obj)) ''conf''
     = (if is_null (get obj ''conf'') then JNull else get obj ''conf'')
   \<and> get (constructor_config (Obj obj)) ''dbpath''
     = (if is_null (get obj ''conf'') \<and> \<not> is_null (get obj ''dbpath'')
        then get obj ''dbpath'' else JNull)
   \<and> get (constructor_config (Obj obj)) ''port''
     = (if is_null (get obj ''conf'') \<and> \<not> is_null (get obj ''port'')
        then get obj ''port'' else JNum 27017)
   \<and> dom (constructor_config (Obj obj)) = {''bin'', ''conf'', ''port'', ''dbpath''}
   \<and> constructor_config (Prim JUndefined) = default_config
   \<and> constructor_config (Prim JNull) = default_config
   \<and> constructor_config (Prim (JBool b)) = default_config
   \<and> constructor_config Func = default_config
   \<and> default_config
     = [''bin'' \<mapsto> JStr ''mongod'', ''conf'' \<mapsto> JNull, ''port'' \<mapsto> JNum 27017,
        ''dbpath'' \<mapsto> JNull]"
proof -
  have num: "constructor_config (Prim (JNum n))
     = [''bin'' \<mapsto> JStr ''mongod'', ''conf'' \<mapsto> JNull, ''port'' \<mapsto> JNum n, ''dbpath'' \<mapsto> JNull]"
    by (rule ext) (simp add: constructor_config_def default_config_def)
  have str: "constructor_config (Prim (JStr t))
     = [''bin'' \<mapsto> JStr ''mongod'', ''conf'' \<mapsto> JNull, ''port'' \<mapsto> JStr t, ''dbpath'' \<mapsto> JNull]"
    by (rule ext) (simp add: constructor_config_def default_config_def)
  have obj: "constructor_config (Obj obj) = parseConfig (Obj obj) (Some default_config)"
    by (simp add: constructor_config_def)
  have bin: "get (constructor_config (Obj obj)) ''bin''
     = (if is_null (get obj ''bin'') then JStr ''mongod'' else get obj ''bin'')"
    by (simp add: obj parseConfig_def copy_field_def default_config_def get_def Let_def)
  have conf: "get (constructor_config (Obj obj)) ''conf''
     = (if is_null (get obj ''conf'') then JNull else get obj ''conf'')"
    by (simp add: obj parseConfig_def copy_field_def default_config_def get_def Let_def)
  have dbpath: "get (constructor_config (Obj obj)) ''dbpath''
     = (if is_null (get obj ''conf'') \<and> \<not> is_null (get obj ''dbpath'')
        then get obj ''dbpath'' else JNull)"
    by (simp add: obj parseConfig_def copy_field_def default_config_def get_def Let_def)
  have port: "get (constructor_config (Obj obj)) ''port''
     = (if is_null (get obj ''conf'') \<and> \<not> is_null (get obj ''port'')
        then get obj ''port'' else JNum 27017)"
    by (simp add: obj parseConfig_def copy_field_def default_config_def get_def Let_def)
  have dom: "dom (constructor_config (Obj obj)) = {''bin'', ''conf'', ''port'', ''dbpath''}"
    by (auto simp add: obj parseConfig_def copy_field_def default_config_def Let_def
        split: if_splits)
  have rest: "constructor_config (Prim JUndefined) = default_config"
    "constructor_config (Prim JNull) = default_config"
    "constructor_config (Prim (JBool b)) = default_config"
    "constructor_config Func = default_config"
    by (simp_all add: constructor_config_def parseConfig_def is_null_def)
  show ?thesis
    using num str obj bin conf dbpath port dom rest by (simp add: default_config_def)
qed

theorem constructor_config_by_argument_witness:
  "constructor_config (Prim (JNum 1234))
     = [''bin'' \<mapsto> JStr ''mongod'', ''conf'' \<mapsto> JNull, ''port'' \<mapsto> JNum 1234, ''dbpath'' \<mapsto> JNull]
   \<and> constructor_config (Prim (JStr ''1234''))
     = [''bin'' \<mapsto> JStr ''mongod'', ''conf'' \<mapsto> JNull, ''port'' \<mapsto> JStr ''1234'',
        ''dbpath'' \<mapsto> JNull]
   \<and> get (constructor_config (Obj [''port'' \<mapsto> JNum 9001, ''dbpath'' \<mapsto> JStr ''data''])) ''bin''
     = JStr ''mongod''
   \<and> get (constructor_config (Obj [''port'' \<mapsto> JNum 9001, ''dbpath'' \<mapsto> JStr ''data''])) ''dbpath''
     = JStr ''data''
   \<and> get (constructor_config (Obj [''port'' \<mapsto> JNum 9001, ''dbpath'' \<mapsto> JStr ''data''])) ''port''
     = JNum 9001"
proof -
  let ?obj = "[''port'' \<mapsto> JNum 9001, ''dbpath'' \<mapsto> JStr ''data'']"
  have fields: "is_null (get ?obj ''bin'')" "is_null (get ?obj ''conf'')"
    "get ?obj ''dbpath'' = JStr ''data''" "get ?obj ''port'' = JNum 9001"
    by (simp_all add: get_def is_null_def)
  have filled: "\<not> is_null (JStr ''data'')" "\<not> is_null (JNum 9001)"
    by (simp_all add: is_null_def)
  from constructor_config_by_argument [of 1234 "''1234''" ?obj True]
  have "constructor_config (Prim (JNum 1234))
     = [''bin'' \<mapsto> JStr ''mongod'', ''conf'' \<mapsto> JNull, ''port'' \<mapsto> JNum 1234, ''dbpath'' \<mapsto> JNull]"
    and "constructor_config (Prim (JStr ''1234''))
     = [''bin'' \<mapsto> JStr ''mongod'', ''conf'' \<mapsto> JNull, ''port'' \<mapsto> JStr ''1234'',
        ''dbpath'' \<mapsto> JNull]"
    and "get (constructor_config (Obj ?obj)) ''bin''
     = (if is_null (get ?obj ''bin'') then JStr ''mongod'' else get ?obj ''bin'')"
    and "get (constructor_config (Obj ?obj)) ''dbpath''
     = (if is_null (get ?obj ''conf'') \<and> \<not> is_null (get ?obj ''dbpath'')
        then get ?obj ''dbpath'' else JNull)"
    and "get (constructor_config (Obj ?obj)) ''port''
     = (if is_null (get ?obj ''conf'') \<and> \<not> is_null (get ?obj ''port'')
        then get ?obj ''port'' else JNum 27017)"
    by blast+
  then show ?thesis
    by (simp only: fields filled if_True simp_thms)
qed


subsection \<open>The completion callback\<close>

text \<open>
  C8 (does not hold of the code). The callback given to \<open>open\<close> or \<open>close\<close> is to be called
  with two arguments, \<open>(null, null)\<close> on success and \<open>(error, null)\<close> on failure.
  \<open>promise.then(callback).catch(callback)\<close> calls it with one argument: \<open>null\<close> alone on
  success, the error alone on failure.
\<close>

theorem callback_gets_one_argument:
  "then_catch (\<lambda>v. None) Resolved = [[CNull]]
   \<and> then_catch (\<lambda>v. None) (Rejected (Error ''Error parsing option'' (- 1)))
       = [[CError (Error ''Error parsing option'' (- 1))]]"
  by (simp add: then_catch_def)


subsection \<open>A failed open\<close>


subsection \<open>Characters and keys\<close>

lemma of_char_less_256: "(of_char c :: nat) < 256"
  by (cases c) simp

lemma of_char_toLowerCase_char:
  "(of_char (toLowerCase_char c) :: nat) =
     (if (65 \<le> (of_char c :: nat) \<and> (of_char c :: nat) \<le> 90)
         \<or> (192 \<le> (of_char c :: nat) \<and> (of_char c :: nat) \<le> 222 \<and> (of_char c :: nat) \<noteq> 215)
      then of_char c + 32 else of_char c)"
  using of_char_less_256 [of c] by (simp add: toLowerCase_char_def Let_def)

lemma char_eq_iff_of_char: "c = d \<longleftrightarrow> (of_char c :: nat) = of_char d"
  by simp


lemma toLowerCase_char_space [simp]: "toLowerCase_char c = CHR '' '' \<longleftrightarrow> c = CHR '' ''"
  by (subst (1 2) char_eq_iff_of_char) (simp add: of_char_toLowerCase_char)



















subsection \<open>Matching\<close>











subsection \<open>The readiness line\<close>






subsection \<open>Observation of the output\<close>




lemma fold_emit:
  "fold (\<lambda>line. emit (f line)) lines s = s\<lparr>emitted := emitted s @ map f lines\<rparr>"
  by (induction lines arbitrary: s) (simp_all add: emit_def)



















subsection \<open>Coalescing of open calls\<close>



































subsection \<open>The outcome of an open attempt\<close>












subsection \<open>One body at a time\<close>

lemma settles_refl: "settles s s"
  by (simp add: settles_def)

lemma settles_trans: "settles s s1 \<Longrightarrow> settles s1 s2 \<Longrightarrow> settles s s2"
  by (simp add: settles_def)

lemma settles_settle: "settles s (settle p st s)"
  by (auto simp add: settles_def settle_def state_of_def nth_list_update)

lemma settles_update_child: "settles s (update_child i f s)"
  by (simp add: settles_def update_child_def state_of_def)

lemma settles_emit: "settles s (emit n s)"
  by (simp add: settles_def emit_def state_of_def)

lemma settles_fold_settle: "settles s (fold (\<lambda>p. settle p Resolved) qs s)"
proof (induction qs arbitrary: s)
  case Nil
  show ?case by (simp add: settles_refl)
next
  case (Cons q qs)
  have "settles s (settle q Resolved s)"
    by (rule settles_settle)
  moreover have "settles (settle q Resolved s) (fold (\<lambda>p. settle p Resolved) qs (settle q Resolved s))"
    by (rule Cons.IH)
  ultimately show ?case
    by (simp add: settles_trans)
qed

lemma settles_run_job: "settles s (run_job j s)"
proof (cases j)
  case (OpenJob p)
  have 1: "settles s (s\<lparr>isOpening := False\<rparr>)"
    by (simp add: settles_def state_of_def)
  have 2: "settles (s\<lparr>isOpening := False\<rparr>) (settle p Resolved (s\<lparr>isOpening := False\<rparr>))"
    by (rule settles_settle)
  show ?thesis
    using settles_trans [OF 1 2]
    by (simp add: OpenJob open_job_def Let_def emit_def)
      (simp add: settles_def state_of_def)
next
  case (CloseJob q)
  let ?e = "emit Closing s"
  have early: "settles s (settle q Resolved (s\<lparr>isClosing := False\<rparr>))"
  proof -
    have "settles s (s\<lparr>isClosing := False\<rparr>)"
      by (simp add: settles_def state_of_def)
    then show ?thesis
      using settles_settle by (rule settles_trans)
  qed
  have none: "settles s (settle q (Rejected TypeError) ?e)"
    using settles_emit settles_settle by (rule settles_trans)
  have some: "settles s (update_child i f ?e)" for i f
    using settles_emit settles_update_child by (rule settles_trans)
  show ?thesis
    using early none some
    by (simp add: CloseJob close_job_def Let_def split: option.splits)
qed

lemma settles_on_close: "settles s (on_close i s)"
proof (cases "i < length (children s) \<and> \<not> closed (children s ! i)")
  case False
  then show ?thesis by (auto simp add: on_close_def settles_refl)
next
  case True
  let ?s1 = "emit Close (s\<lparr>process := None, port := None, pid := None,
                      isRunning := False, isClosing := False,
                      exitHandlers := exitHandlers s - 1\<rparr>)"
  let ?s2 = "fold (\<lambda>p. settle p Resolved) (close_once (children ?s1 ! i)) ?s1"
  have 1: "settles s ?s1"
    by (simp add: settles_def emit_def state_of_def)
  have 2: "settles ?s1 ?s2"
    by (rule settles_fold_settle)
  have 3: "settles ?s2 (update_child i (\<lambda>c. c\<lparr>close_once := [], closed := True\<rparr>) ?s2)"
    by (rule settles_update_child)
  have "on_close i s = update_child i (\<lambda>c. c\<lparr>close_once := [], closed := True\<rparr>) ?s2"
    using True by (simp add: on_close_def Let_def)
  with settles_trans [OF settles_trans [OF 1 2] 3] show ?thesis
    by simp
qed

lemma settles_matchHandler: "matchHandler p m s = (b, s') \<Longrightarrow> settles s s'"
proof -
  assume a: "matchHandler p m s = (b, s')"
  have f: "settles s (snd (finish p err s0))" if "settles s s0" for err s0
  proof -
    have "settles s0 (s0\<lparr>isOpening := False\<rparr>)"
      by (simp add: settles_def state_of_def)
    with that have "settles s (s0\<lparr>isOpening := False\<rparr>)"
      by (rule settles_trans)
    then show ?thesis
      using settles_settle
      by (cases err) (auto simp add: finish_def Let_def intro: settles_trans)
  qed
  have r: "settles s (emit Open (s\<lparr>isRunning := True\<rparr>))"
    by (simp add: settles_def emit_def state_of_def)
  have n: "settles s (s\<lparr>pid := v\<rparr>)" "settles s (s\<lparr>port := v\<rparr>)" for v
    by (simp_all add: settles_def state_of_def)
  from a have "s' = snd (matchHandler p m s)"
    by simp
  then show ?thesis
    using f [OF settles_refl] f [OF r] n settles_refl
    by (cases "key_value m") (auto simp add: matchHandler_def split: if_splits)
qed

lemma settles_for_matches: "for_matches i ms s = Inr s' \<Longrightarrow> settles s s'"
proof (induction ms arbitrary: s)
  case Nil
  then show ?case by (simp add: settles_refl)
next
  case (Cons m ms)
  let ?p = "if i < length (children s) then attempt (children s ! i) else 0"
  obtain b s1 where mh: "matchHandler ?p m s = (b, s1)"
    by (cases "matchHandler ?p m s") auto
  note k = settles_matchHandler [OF mh]
  show ?case
  proof (cases b)
    case True
    with Cons.prems mh have "remove_dataHandler i s1 = Inr s'"
      by simp
    then have "s' = s1 \<or> s' = update_child i (\<lambda>c. c\<lparr>dataHandler_on := False\<rparr>) s1"
      by (auto simp add: remove_dataHandler_def split: option.splits if_splits)
    then have "settles s1 s'"
      using settles_refl settles_update_child by auto
    with k show ?thesis by (rule settles_trans)
  next
    case False
    with Cons.prems mh have "for_matches i ms s1 = Inr s'"
      by simp
    then have "settles s1 s'"
      by (rule Cons.IH)
    with k show ?thesis by (rule settles_trans)
  qed
qed

lemma settles_for_lines: "for_lines (line_callback i) lines s = Inr s' \<Longrightarrow> settles s s'"
proof (induction lines arbitrary: s)
  case Nil
  then show ?case by (simp add: settles_refl)
next
  case (Cons line lines)
  from Cons.prems obtain s1 where lc: "line_callback i line s = Inr s1"
    and rest: "for_lines (line_callback i) lines s1 = Inr s'"
    by (auto split: sum.splits)
  from lc have "for_matches i (match_keyRE line) s = Inr s1"
    by (simp only: line_callback_def)
  then have "settles s s1"
    by (rule settles_for_matches)
  moreover from rest have "settles s1 s'"
    by (rule Cons.IH)
  ultimately show ?case
    by (rule settles_trans)
qed

lemma settles_propagator: "settles s (propagator i st data s)"
proof -
  have e: "settles s0 (s0\<lparr>emitted := es\<rparr>)" for s0 es
    by (simp add: settles_def state_of_def)
  show ?thesis
    using settles_trans [OF settles_update_child e]
    by (cases st) (auto simp add: propagator_def fold_emit settles_refl split: prod.splits)
qed

lemma settles_on_data: "on_data i st data s = Inr s' \<Longrightarrow> settles s s'"
proof -
  assume a: "on_data i st data s = Inr s'"
  show ?thesis
  proof (cases "i < length (children s) \<and> \<not> closed (children s ! i) \<and> dataHandler_on (children s ! i)")
    case False
    with a have "s' = s \<or> s' = propagator i st data s"
      by (auto simp add: on_data_def split: if_splits)
    then show ?thesis
      using settles_refl settles_propagator by auto
  next
    case True
    with a obtain s1 where dh: "dataHandler i data s = Inr s1"
      and s': "s' = propagator i st data s1"
      by (auto simp add: on_data_def split: sum.splits)
    obtain lines buffer where ag: "aggregator (dataHandler_buffer (children s ! i)) data = (lines, buffer)"
      by (cases "aggregator (dataHandler_buffer (children s ! i)) data") auto
    let ?s0 = "update_child i (\<lambda>c. c\<lparr>dataHandler_buffer := buffer\<rparr>) s"
    from dh ag True have "for_lines (line_callback i) lines ?s0 = Inr s1"
      by (simp add: dataHandler_def)
    then have "settles ?s0 s1"
      by (rule settles_for_lines)
    with settles_update_child have "settles s s1"
      by (rule settles_trans)
    then show ?thesis
      unfolding s' using settles_propagator by (rule settles_trans)
  qed
qed

lemma queue_inv_settles: "queue_inv s \<Longrightarrow> settles s s' \<Longrightarrow> queue_inv s'"
  by (auto simp add: queue_inv_def settles_def split: option.splits)

lemma queue_inv_dequeue:
  assumes "queue_inv s"
  shows "queue_inv (dequeue s)"
proof (cases "pending s")
  case (Some j)
  with assms show ?thesis by (simp add: dequeue_def)
next
  case None
  show ?thesis
  proof (cases "queue s")
    case Nil
    with None assms show ?thesis by (simp add: dequeue_def)
  next
    case (Cons j js)
    let ?s1 = "s\<lparr>queue := js, pending := Some j, started := started s @ [j]\<rparr>"
    have st: "state_of ?s1 = state_of s"
      by (rule ext) (simp add: state_of_def)
    have "queue_inv ?s1"
      using assms None Cons unfolding queue_inv_def st by simp
    then have "queue_inv (run_job j ?s1)"
      using settles_run_job by (rule queue_inv_settles)
    with None Cons show ?thesis
      by (simp add: dequeue_def)
  qed
qed

lemma queue_inv_tick:
  assumes "queue_inv s"
  shows "queue_inv (tick s)"
proof (cases "pending s")
  case None
  with assms show ?thesis by (simp add: tick_def)
next
  case (Some j)
  show ?thesis
  proof (cases "state_of s (promise_of j) = Pending")
    case True
    with Some assms show ?thesis by (simp add: tick_def)
  next
    case False
    from assms Some have st: "started s \<noteq> []" "last (started s) = j"
      by (simp_all add: queue_inv_def)
    have "butlast (started s) @ [last (started s)] = started s"
      using st(1) by simp
    then have "set (butlast (started s) @ [j]) = set (started s)"
      using st(2) by simp
    then have "set (started s) = insert j (set (butlast (started s)))"
      by simp
    moreover have "\<forall>j\<in>set (butlast (started s)). state_of s (promise_of j) \<noteq> Pending"
      using assms by (simp add: queue_inv_def)
    ultimately have "\<forall>j\<in>set (started s). state_of s (promise_of j) \<noteq> Pending"
      using False by simp
    moreover have "state_of (s\<lparr>pending := None\<rparr>) = state_of s"
      by (rule ext) (simp add: state_of_def)
    ultimately have "queue_inv (s\<lparr>pending := None\<rparr>)"
      using assms unfolding queue_inv_def by simp
    then have "queue_inv (dequeue (s\<lparr>pending := None\<rparr>))"
      by (rule queue_inv_dequeue)
    with Some False show ?thesis
      by (simp add: tick_def)
  qed
qed

lemma queue_inv_add:
  assumes "queue_inv s" and "promise_of (f (length (promises s))) = length (promises s)"
  shows "queue_inv (snd (add f s))"
proof -
  let ?p = "length (promises s)"
  let ?s1 = "s\<lparr>promises := promises s @ [Pending], queue := queue s @ [f ?p]\<rparr>"
  have same: "state_of ?s1 q \<noteq> Pending" if "state_of s q \<noteq> Pending" for q
    using that by (auto simp add: state_of_def nth_append split: if_splits)
  have len: "2 \<le> ?p" and m: "map promise_of (started s @ queue s) = [2..<?p]"
    and b: "\<forall>j\<in>set (butlast (started s)). state_of s (promise_of j) \<noteq> Pending"
    using assms(1) by (simp_all add: queue_inv_def)
  have "[2..<Suc ?p] = [2..<?p] @ [?p]"
    using len by simp
  with m assms(2) have m1: "map promise_of (started ?s1 @ queue ?s1) = [2..<length (promises ?s1)]"
    by simp
  have b1: "\<forall>j\<in>set (butlast (started ?s1)). state_of ?s1 (promise_of j) \<noteq> Pending"
    using b same by simp
  have p1: "case pending ?s1 of
            Some j \<Rightarrow> started ?s1 \<noteq> [] \<and> last (started ?s1) = j
          | None \<Rightarrow> (\<forall>j\<in>set (started ?s1). state_of ?s1 (promise_of j) \<noteq> Pending)"
    using assms(1) same by (auto simp add: queue_inv_def split: option.splits)
  have "queue_inv ?s1"
    unfolding queue_inv_def using len m1 b1 p1 by simp
  then have "queue_inv (dequeue ?s1)"
    by (rule queue_inv_dequeue)
  then show ?thesis
    by (simp add: add_def new_promise_def)
qed

lemma settles_flags:
  "settles s (s\<lparr>isOpening := a, isClosing := b\<rparr>)"
  "settles s (s\<lparr>isClosing := b, isOpening := a\<rparr>)"
  "settles s (s\<lparr>openPromise := p\<rparr>)"
  "settles s (s\<lparr>closePromise := p\<rparr>)"
  by (simp_all add: settles_def state_of_def)

lemma queue_inv_Mongod_open: "queue_inv s \<Longrightarrow> queue_inv (snd (Mongod_open s))"
proof -
  assume a: "queue_inv s"
  let ?s1 = "s\<lparr>isOpening := True, isClosing := False\<rparr>"
  let ?s2 = "snd (add OpenJob ?s1)"
  have "queue_inv ?s1"
    using a settles_flags(1) by (rule queue_inv_settles)
  then have "queue_inv ?s2"
    by (rule queue_inv_add) simp
  then have "queue_inv (?s2\<lparr>openPromise := p\<rparr>)" for p
    using settles_flags(3) by (rule queue_inv_settles)
  moreover obtain p s2 where "add OpenJob ?s1 = (p, s2)"
    by (cases "add OpenJob ?s1") auto
  ultimately show ?thesis
    using a by (auto simp add: Mongod_open_def)
qed

lemma queue_inv_Mongod_close: "queue_inv s \<Longrightarrow> queue_inv (snd (Mongod_close s))"
proof -
  assume a: "queue_inv s"
  let ?s1 = "s\<lparr>isClosing := True, isOpening := False\<rparr>"
  let ?s2 = "snd (add CloseJob ?s1)"
  have "queue_inv ?s1"
    using a settles_flags(2) by (rule queue_inv_settles)
  then have "queue_inv ?s2"
    by (rule queue_inv_add) simp
  then have "queue_inv (?s2\<lparr>closePromise := p\<rparr>)" for p
    using settles_flags(4) by (rule queue_inv_settles)
  moreover obtain p s2 where "add CloseJob ?s1 = (p, s2)"
    by (cases "add CloseJob ?s1") auto
  ultimately show ?thesis
    using a by (auto simp add: Mongod_close_def)
qed

lemma queue_inv_funpow_close:
  "queue_inv s \<Longrightarrow> queue_inv (((\<lambda>s. snd (Mongod_close s)) ^^ n) s)"
  by (induction n) (simp_all add: queue_inv_Mongod_close)

lemma queue_inv_step:
  assumes "queue_inv s" and "step x s = Inr s'"
  shows "queue_inv s'"
proof (cases x)
  case CallOpen
  with assms show ?thesis using queue_inv_Mongod_open by auto
next
  case CallClose
  with assms show ?thesis using queue_inv_Mongod_close by auto
next
  case (Data i st data)
  with assms have "settles s s'"
    using settles_on_data by simp
  with assms(1) show ?thesis by (rule queue_inv_settles)
next
  case (Closed i)
  with assms have "s' = on_close i s" by simp
  with assms(1) show ?thesis
    using settles_on_close queue_inv_settles by blast
next
  case Tick
  with assms show ?thesis using queue_inv_tick by auto
next
  case Exit
  with assms show ?thesis using queue_inv_funpow_close by auto
qed

lemma queue_inv_run: "queue_inv s \<Longrightarrow> run xs s = Inr s' \<Longrightarrow> queue_inv s'"
proof (induction xs arbitrary: s)
  case Nil
  then show ?case by simp
next
  case (Cons x xs)
  from Cons.prems(2) obtain s1 where 1: "step x s = Inr s1" and 2: "run xs s1 = Inr s'"
    by (auto split: sum.splits)
  from Cons.prems(1) 1 have "queue_inv s1"
    by (rule queue_inv_step)
  then show ?case
    using 2 by (rule Cons.IH)
qed

lemma queue_inv_Mongod: "queue_inv (Mongod configOrPort)"
  by (simp add: queue_inv_def Mongod_def)

text \<open>
  C2. In every state that a server can reach: the jobs whose bodies were started,
  followed by the jobs still waiting, are the promises that \<open>add\<close> made for the calls of
  \<open>open\<close> and \<open>close\<close>, in the order of these calls; and every started body but the latest
  has settled, resolved or rejected. So a body starts only when all bodies queued
  before it have settled; after \<open>open()\<close> and \<open>close()\<close> the close body is not among the
  started ones before the open body has settled.
\<close>

theorem bodies_run_one_at_a_time:
  assumes "run xs (Mongod configOrPort) = Inr s"
  shows "map promise_of (started s @ queue s) = [2..<length (promises s)]
     \<and> (\<forall>j\<in>set (butlast (started s)). state_of s (promise_of j) \<noteq> Pending)"
proof -
  have "queue_inv s"
    using queue_inv_Mongod assms by (rule queue_inv_run)
  then show ?thesis
    by (simp add: queue_inv_def)
qed


theorem bodies_run_one_at_a_time_witness:
  "run [CallOpen, CallClose, Data 0 StdoutStream (''waiting for connections'' @ [LF]), Tick]
       (Mongod (Prim JUndefined))
     = Inr \<lparr>config = default_config, pid = None, port = None, process = Some 0,
            openPromise = 2, closePromise = 3,
            isClosing = True, isRunning = True, isOpening = False,
            queue = [], pending = Some (CloseJob 3), started = [OpenJob 2, CloseJob 3],
            promises = [Resolved, Resolved, Resolved, Pending],
            children = [\<lparr>attempt = 2, dataHandler_on = False, dataHandler_buffer = [],
                         stdout_buffer = [], stderr_buffer = [], close_once = [3],
                         killed = True, closed = False\<rparr>],
            exitHandlers = 1,
            emitted = [Opening, Open, Stdout ''waiting for connections'', Closing],
            spawned = [(JStr ''mongod'', [JStr ''--port'', JNum 27017])]\<rparr>
   \<and> map promise_of [OpenJob 2, CloseJob 3] = [2..<4]
   \<and> state_of
        \<lparr>config = default_config, pid = None, port = None, process = Some 0,
         openPromise = 2, closePromise = 3,
         isClosing = True, isRunning = True, isOpening = False,
         queue = [], pending = Some (CloseJob 3), started = [OpenJob 2, CloseJob 3],
         promises = [Resolved, Resolved, Resolved, Pending],
         children = [\<lparr>attempt = 2, dataHandler_on = False, dataHandler_buffer = [],
                      stdout_buffer = [], stderr_buffer = [], close_once = [3],
                      killed = True, closed = False\<rparr>],
         exitHandlers = 1,
         emitted = [Opening, Open, Stdout ''waiting for connections'', Closing],
         spawned = [(JStr ''mongod'', [JStr ''--port'', JNum 27017])]\<rparr> 2 = Resolved"
proof -
  let ?s = "\<lparr>config = default_config, pid = None, port = None, process = Some 0,
         openPromise = 2, closePromise = 3,
         isClosing = True, isRunning = True, isOpening = False,
         queue = [], pending = Some (CloseJob 3), started = [OpenJob 2, CloseJob 3],
         promises = [Resolved, Resolved, Resolved, Pending],
         children = [\<lparr>attempt = 2, dataHandler_on = False, dataHandler_buffer = [],
                      stdout_buffer = [], stderr_buffer = [], close_once = [3],
                      killed = True, closed = False\<rparr>],
         exitHandlers = 1,
         emitted = [Opening, Open, Stdout ''waiting for connections'', Closing],
         spawned = [(JStr ''mongod'', [JStr ''--port'', JNum 27017])]\<rparr>"
  have r: "run [CallOpen, CallClose,
                Data 0 StdoutStream (''waiting for connections'' @ [LF]), Tick]
               (Mongod (Prim JUndefined)) = Inr ?s"
    by (simp add: server_defs match_waiting key_value_waiting_plain
        constructor_config_def default_config_def get_def parseFlags_def is_null_def)
  have v: "state_of ?s 2 = Resolved"
    by (simp add: state_of_def)
  from bodies_run_one_at_a_time [OF r]
  have "map promise_of [OpenJob 2, CloseJob 3] = [2..<4]"
    by simp
  with r v show ?thesis
    by simp
qed

end
